theory Spec2Isabelle
  imports Main "HOL-Library.Sublist"
begin

section \<open>JavaScript strings\<close>

text \<open>
  A document text is a JavaScript string; it is modelled as a list of characters,
  one \<^typ>\<open>char\<close> per code unit (a \<^typ>\<open>char\<close> has eight bits, so code units above
  255 are not modelled). Indexing a string, \<^verbatim>\<open>docText[i]\<close>, yields the
  one-character string at offset \<open>i\<close>, or \<^verbatim>\<open>undefined\<close> when \<open>i\<close> is negative or not
  below the length; \<^verbatim>\<open>undefined\<close> is \<open>None\<close>.
\<close>

definition charAtIndex :: "string \<Rightarrow> int \<Rightarrow> string option" where
  "charAtIndex s i = (if 0 \<le> i \<and> i < int (length s) then Some [s ! nat i] else None)"

text \<open>
  \<^verbatim>\<open>s.substring(start, fin)\<close>: both arguments are clamped to \<open>[0, length s]\<close> and
  swapped when the first exceeds the second.
\<close>

definition substring :: "string \<Rightarrow> int \<Rightarrow> int \<Rightarrow> string" where
  "substring s start fin =
     (let len = int (length s);
          a = min (max start 0) len;
          b = min (max fin 0) len;
          lo = min a b;
          hi = max a b
      in take (nat (hi - lo)) (drop (nat lo) s))"

text \<open>\<^verbatim>\<open>xs.indexOf(x)\<close> on an array: the first index holding \<open>x\<close>, or \<open>-1\<close>.\<close>

fun indexOf :: "'a list \<Rightarrow> 'a \<Rightarrow> int" where
  "indexOf [] x = - 1"
| "indexOf (y # ys) x =
     (if y = x then 0 else (let i = indexOf ys x in if i = - 1 then - 1 else i + 1))"

text \<open>
  \<^verbatim>\<open>s.startsWith(p)\<close>, \<^verbatim>\<open>s.endsWith(p)\<close>, \<^verbatim>\<open>s.indexOf(p)\<close> and \<^verbatim>\<open>s.lastIndexOf(p)\<close> on
  strings; the last two give \<open>-1\<close> when \<open>p\<close> does not occur.
\<close>

definition startsWith :: "string \<Rightarrow> string \<Rightarrow> bool" where
  "startsWith s p = (take (length p) s = p)"

definition endsWith :: "string \<Rightarrow> string \<Rightarrow> bool" where
  "endsWith s p = (length p \<le> length s \<and> drop (length s - length p) s = p)"

fun stringIndexOf :: "string \<Rightarrow> string \<Rightarrow> int" where
  "stringIndexOf [] p = (if p = [] then 0 else - 1)"
| "stringIndexOf (c # cs) p =
     (if startsWith (c # cs) p then 0
      else (let i = stringIndexOf cs p in if i = - 1 then - 1 else i + 1))"

fun stringLastIndexOf :: "string \<Rightarrow> string \<Rightarrow> int" where
  "stringLastIndexOf [] p = (if p = [] then 0 else - 1)"
| "stringLastIndexOf (c # cs) p =
     (let i = stringLastIndexOf cs p in
      if i \<noteq> - 1 then i + 1
      else if startsWith (c # cs) p then 0 else - 1)"

text \<open>
  \<^verbatim>\<open>s.replace(p, r)\<close> with a string pattern replaces the first occurrence of \<open>p\<close> only.
  (Both calls in the source pass the empty replacement, so the \<^verbatim>\<open>$\<close> patterns of a
  replacement string play no part.)
\<close>

definition replace :: "string \<Rightarrow> string \<Rightarrow> string \<Rightarrow> string" where
  "replace s p r =
     (let i = stringIndexOf s p
      in if i = - 1 then s else take (nat i) s @ r @ drop (nat i + length p) s)"

text \<open>
  \<^verbatim>\<open>s.substr(start, len)\<close> and \<^verbatim>\<open>s.substr(start)\<close>; a negative \<open>start\<close> counts from
  the end of the string.
\<close>

definition substr :: "string \<Rightarrow> int \<Rightarrow> int \<Rightarrow> string" where
  "substr s start len =
     (let from = (if start < 0 then max (int (length s) + start) 0 else start)
      in take (nat len) (drop (nat from) s))"

definition substrFrom :: "string \<Rightarrow> int \<Rightarrow> string" where
  "substrFrom s start = substr s start (int (length s))"

text \<open>
  \<^verbatim>\<open>s.trim()\<close> removes white space and line terminators from both ends. Of the
  characters JavaScript counts as such, those that fit one \<^typ>\<open>char\<close> are the tab, line
  feed, vertical tab, form feed, carriage return, the space and the no-break space.
\<close>

definition isWhiteSpace :: "char \<Rightarrow> bool" where
  "isWhiteSpace c = (c \<in> {CHR 0x09, CHR 0x0A, CHR 0x0B, CHR 0x0C, CHR 0x0D, CHR 0x20, CHR 0xA0})"

definition trim :: "string \<Rightarrow> string" where
  "trim s = rev (dropWhile isWhiteSpace (rev (dropWhile isWhiteSpace s)))"

text \<open>\<^verbatim>\<open>s.split(sep)\<close> with a one-character separator.\<close>

fun split :: "string \<Rightarrow> char \<Rightarrow> string list" where
  "split [] sep = [[]]"
| "split (c # cs) sep =
     (if c = sep then [] # split cs sep
      else (case split cs sep of
              [] \<Rightarrow> [[c]]
            | l # ls \<Rightarrow> (c # l) # ls))"

text \<open>\<^verbatim>\<open>xs.find(p)\<close> on an array yields the first element satisfying \<open>p\<close>; the index of
  that element stands for the reference to it that the source keeps.\<close>

fun findIndex :: "('a \<Rightarrow> bool) \<Rightarrow> 'a list \<Rightarrow> nat option" where
  "findIndex p [] = None"
| "findIndex p (x # xs) = (if p x then Some 0 else map_option Suc (findIndex p xs))"

section \<open>The backward scan of \<^verbatim>\<open>onCompletion\<close>\<close>

text \<open>
  The handler returns from three places inside and after its loop:
  \<^verbatim>\<open>headerCompletionResults(filename)\<close>, \<^verbatim>\<open>fileCompletionResults()\<close> and the empty
  list. The scan is modelled as returning which of the three it took, and
  \<open>onCompletion\<close> below turns that into the list of entries.
\<close>

datatype linkContext =
    HeadingLinkContext string
  | FileLinkContext
  | NoContext

text \<open>The mutable locals of the handler, in the order they are declared.\<close>

record scanState =
  currentPosition :: int
  currentChar :: "string option"
  afterHeadingMarker :: bool
  headingMarkerPosition :: int
  firstClosingBraceHit :: bool
  firstOpeningBraceHit :: bool

definition initialScan :: "string \<Rightarrow> int \<Rightarrow> scanState" where
  "initialScan docText positionOffset =
     \<lparr> currentPosition = positionOffset,
       currentChar = charAtIndex docText positionOffset,
       afterHeadingMarker = False,
       headingMarkerPosition = 0,
       firstClosingBraceHit = False,
       firstOpeningBraceHit = False \<rparr>"

text \<open>
  The array of the two strings the loop condition looks for: the line feed, and the
  carriage return followed by the line feed. The second has two characters and so
  never equals a character read from the text.
\<close>

definition exitChars :: "string list" where
  "exitChars = [[CHR 0x0A], [CHR 0x0D, CHR 0x0A]]"

datatype scanStep = Return linkContext | Continue scanState

text \<open>
  The two statements that close the loop body: step one offset back and read the
  character there.
\<close>

definition stepBack :: "string \<Rightarrow> scanState \<Rightarrow> scanState" where
  "stepBack docText s =
     s\<lparr> currentPosition := currentPosition s - 1,
        currentChar := charAtIndex docText (currentPosition s - 1) \<rparr>"

text \<open>One run of the body of the \<^verbatim>\<open>do ... while\<close> loop.\<close>

definition scanBody :: "string \<Rightarrow> scanState \<Rightarrow> scanStep" where
  "scanBody docText s =
     (if currentChar s = Some ''#'' then
        Continue (stepBack docText
          (s\<lparr> afterHeadingMarker := True, headingMarkerPosition := currentPosition s \<rparr>))
      else if currentChar s = Some ''['' then
        (if firstOpeningBraceHit s then
           (if afterHeadingMarker s then
              Return (HeadingLinkContext
                (substring docText (currentPosition s + 2) (headingMarkerPosition s)))
            else Return FileLinkContext)
         else Continue (stepBack docText (s\<lparr> firstOpeningBraceHit := True \<rparr>)))
      else if currentChar s = Some '']'' then
        (if firstClosingBraceHit s then Return NoContext
         else Continue (stepBack docText (s\<lparr> firstClosingBraceHit := True \<rparr>)))
      else
        Continue (stepBack docText
          (s\<lparr> firstClosingBraceHit := False, firstOpeningBraceHit := False \<rparr>)))"

text \<open>
  The loop. The body runs once before the condition is first tested, and the loop
  goes on while the character just read is not among \<open>exitChars\<close>. Nothing in the
  source bounds the number of rounds, so a scan that never returns is the value
  \<open>None\<close>.
\<close>

partial_function (option) scanLoop :: "string \<Rightarrow> scanState \<Rightarrow> linkContext option" where
  "scanLoop docText s =
     (case scanBody docText s of
        Return r \<Rightarrow> Some r
      | Continue s' \<Rightarrow>
          (if indexOf (map Some exitChars) (currentChar s') = - 1
           then scanLoop docText s'
           else Some NoContext))"

declare scanLoop.simps [code]

definition linkContextScanner :: "string \<Rightarrow> int \<Rightarrow> linkContext option" where
  "linkContextScanner docText positionOffset = scanLoop docText (initialScan docText positionOffset)"

text \<open>
  The state at the head of the loop body after \<open>n\<close> complete rounds, or \<open>None\<close> when the
  loop has ended before; it is used to say which offsets a scan has read.
\<close>

fun scanRounds :: "nat \<Rightarrow> string \<Rightarrow> scanState \<Rightarrow> scanState option" where
  "scanRounds 0 docText s = Some s"
| "scanRounds (Suc n) docText s =
     (case scanBody docText s of
        Return r \<Rightarrow> None
      | Continue s' \<Rightarrow>
          (if indexOf (map Some exitChars) (currentChar s') = - 1
           then scanRounds n docText s'
           else None))"

text \<open>
  The state in which a scan leaves a run \<open>xs\<close> of characters that starts at offset \<open>n\<close>
  and holds no bracket, having entered it in state \<open>s\<close>: the position is the offset
  before the run, both bracket flags are down, and the heading marker is at the
  leftmost \<^verbatim>\<open>#\<close> of the run when it has one.
\<close>

definition blockEnd :: "string \<Rightarrow> nat \<Rightarrow> string \<Rightarrow> scanState \<Rightarrow> scanState" where
  "blockEnd t n xs s =
     \<lparr> currentPosition = int n - 1,
       currentChar = charAtIndex t (int n - 1),
       afterHeadingMarker = (afterHeadingMarker s \<or> CHR ''#'' \<in> set xs),
       headingMarkerPosition =
         (if CHR ''#'' \<in> set xs then int n + int (length (takeWhile (\<lambda>c. c \<noteq> CHR ''#'') xs))
          else headingMarkerPosition s),
       firstClosingBraceHit = False,
       firstOpeningBraceHit = False \<rparr>"

section \<open>Headings and the list of notes\<close>

record Heading =
  title :: string
  level :: int

record Note =
  filename :: string
  headings :: "Heading list"

text \<open>What the handlers read of a text document: its URI and its text.\<close>

record TextDocument =
  uri :: string
  getText :: string

subsection \<open>\<^verbatim>\<open>findHeadingsInDocument\<close>\<close>

text \<open>
  The regular expression \<^verbatim>\<open>/^(#+) (.+)/g\<close>. It has no \<^verbatim>\<open>m\<close> flag, so \<^verbatim>\<open>^\<close> holds at
  offset \<open>0\<close> only. There the match is a longest run of one or more \<^verbatim>\<open>#\<close>, one
  space, and the longest non-empty run of characters that are not line terminators;
  taking fewer \<^verbatim>\<open>#\<close> cannot help, since the next character would be a \<^verbatim>\<open>#\<close> and not a
  space. \<open>matchAtStart\<close> yields the matched text, \<^verbatim>\<open>lineMatches[0]\<close>.
\<close>

definition isLineTerminator :: "char \<Rightarrow> bool" where
  "isLineTerminator c = (c = CHR 0x0A \<or> c = CHR 0x0D)"

definition matchAtStart :: "string \<Rightarrow> string option" where
  "matchAtStart line =
     (let hashes = takeWhile (\<lambda>c. c = CHR ''#'') line;
          afterHashes = dropWhile (\<lambda>c. c = CHR ''#'') line;
          content = takeWhile (\<lambda>c. \<not> isLineTerminator c) (tl afterHashes)
      in if hashes \<noteq> [] \<and> afterHashes \<noteq> [] \<and> hd afterHashes = CHR '' '' \<and> content \<noteq> []
         then Some (hashes @ '' '' @ content)
         else None)"

text \<open>
  \<^verbatim>\<open>re.exec(line)\<close>. The expression carries the \<^verbatim>\<open>g\<close> flag, so the search starts at the
  expression's \<^verbatim>\<open>lastIndex\<close>: a successful match sets \<^verbatim>\<open>lastIndex\<close> to the end of the
  match, a failed one sets it to \<open>0\<close>. A search that starts after offset \<open>0\<close> cannot
  satisfy \<^verbatim>\<open>^\<close> and fails. The result is the match and the new \<^verbatim>\<open>lastIndex\<close>.
\<close>

definition exec :: "nat \<Rightarrow> string \<Rightarrow> string option \<times> nat" where
  "exec lastIndex line =
     (if lastIndex = 0 then
        (case matchAtStart line of
           Some m \<Rightarrow> (Some m, length m)
         | None \<Rightarrow> (None, 0))
      else (None, 0))"

text \<open>
  The \<^verbatim>\<open>map\<close> over the lines: the one expression object \<^verbatim>\<open>re\<close> is shared by all calls
  of the callback, so its \<^verbatim>\<open>lastIndex\<close> is threaded from line to line.
\<close>

fun mapLines :: "nat \<Rightarrow> string list \<Rightarrow> string list" where
  "mapLines lastIndex [] = []"
| "mapLines lastIndex (line # lines) =
     (let (lineMatches, lastIndex') = exec lastIndex line;
          firstMatch = (case lineMatches of Some m \<Rightarrow> m | None \<Rightarrow> []);
          firstMatch' = trim (replace firstMatch ''#'' [])
      in firstMatch' # mapLines lastIndex' lines)"

text \<open>The list handed to the callback \<^verbatim>\<open>addToNote\<close>. A fresh expression object, with
  \<^verbatim>\<open>lastIndex\<close> \<open>0\<close>, is made on every call.\<close>

definition findHeadingsInDocument :: "string \<Rightarrow> string list" where
  "findHeadingsInDocument textContent =
     filter (\<lambda>elem. elem \<noteq> [])
       (mapLines 0 (split textContent (CHR 0x0A)))"

subsection \<open>\<^verbatim>\<open>addNoteToList\<close>\<close>

text \<open>
  The name a note is filed under. \<open>extensionToRemove\<close> is \<^verbatim>\<open>'.txt'\<close> in one of the two
  source files and \<^verbatim>\<open>'.md'\<close> in the other, \<open>rootUri\<close> is the global set at
  initialisation; both are arguments here.
\<close>

definition noteFilename :: "string \<Rightarrow> string \<Rightarrow> string \<Rightarrow> string" where
  "noteFilename extensionToRemove rootUri documentUri =
     (let f0 = replace documentUri rootUri [];
          f1 = (if endsWith f0 extensionToRemove
                then substr f0 0 (stringLastIndexOf f0 extensionToRemove)
                else f0)
      in if startsWith f1 ''/'' then substrFrom f1 1 else f1)"

definition addHeadingsToNote :: "string list \<Rightarrow> Heading list" where
  "addHeadingsToNote hs = map (\<lambda>heading. \<lparr> title = heading, level = 1 \<rparr>) hs"

text \<open>
  The global array \<^verbatim>\<open>notes\<close> is passed in and returned. \<^verbatim>\<open>note\<close> is either the element
  found in the array or a new object pushed at its end; the assignment to
  \<^verbatim>\<open>note.headings\<close> writes through that reference, here the element's index.
\<close>

definition addNoteToList :: "string \<Rightarrow> string \<Rightarrow> Note list \<Rightarrow> TextDocument \<Rightarrow> Note list" where
  "addNoteToList extensionToRemove rootUri notes textDocument =
     (let fname = noteFilename extensionToRemove rootUri (uri textDocument);
          existingNote = findIndex (\<lambda>elem. filename elem = fname) notes;
          notes' = (case existingNote of
                      None \<Rightarrow> notes @ [\<lparr> filename = fname, headings = [] \<rparr>]
                    | Some i \<Rightarrow> notes);
          note = (case existingNote of None \<Rightarrow> length notes | Some i \<Rightarrow> i)
      in notes'[note := (notes' ! note)
           \<lparr> headings := addHeadingsToNote (findHeadingsInDocument (getText textDocument)) \<rparr>])"

section \<open>Completion entries\<close>

text \<open>
  A completion entry is a JavaScript object: a finite map from property names to
  values. The values that occur are numbers and strings.
\<close>

datatype jsValue = JSNumber int | JSString string

type_synonym completionItem = "string \<rightharpoonup> jsValue"

text \<open>\<^verbatim>\<open>CompletionItemKind.Text\<close> of the language-server protocol library is the number 1.\<close>

definition CompletionItemKind_Text :: jsValue where
  "CompletionItemKind_Text = JSNumber 1"

text \<open>\<^verbatim>\<open>xs.map((x, index) => ...)\<close>: the callback receives each element with its index.\<close>

definition mapWithIndex :: "('a \<Rightarrow> int \<Rightarrow> 'b) \<Rightarrow> 'a list \<Rightarrow> 'b list" where
  "mapWithIndex f xs = map (\<lambda>(i, x). f x (int i)) (enumerate 0 xs)"

definition headerCompletionResults :: "Note list \<Rightarrow> string \<Rightarrow> completionItem list" where
  "headerCompletionResults notes fname =
     (case find (\<lambda>note. filename note = fname) notes of
        None \<Rightarrow> []
      | Some matchingNote \<Rightarrow>
          mapWithIndex
            (\<lambda>heading index.
               [''label'' \<mapsto> JSString (title heading),
                ''king'' \<mapsto> CompletionItemKind_Text,
                ''data'' \<mapsto> JSNumber index])
            (headings matchingNote))"

definition fileCompletionResults :: "Note list \<Rightarrow> completionItem list" where
  "fileCompletionResults notes =
     mapWithIndex
       (\<lambda>note index.
          [''label'' \<mapsto> JSString (filename note),
           ''kind'' \<mapsto> CompletionItemKind_Text,
           ''data'' \<mapsto> JSNumber index])
       notes"

definition completionResults :: "Note list \<Rightarrow> linkContext \<Rightarrow> completionItem list" where
  "completionResults notes c =
     (case c of
        HeadingLinkContext fname \<Rightarrow> headerCompletionResults notes fname
      | FileLinkContext \<Rightarrow> fileCompletionResults notes
      | NoContext \<Rightarrow> [])"

text \<open>
  The handler. \<open>currentDoc\<close> is the text of the open document the request names, or
  \<open>None\<close> when no such document is open; \<open>positionOffset\<close> is the offset the document
  gives for the requested position. The result is \<open>None\<close> when the handler does not
  return.
\<close>

definition onCompletion :: "Note list \<Rightarrow> string option \<Rightarrow> int \<Rightarrow> completionItem list option" where
  "onCompletion notes currentDoc positionOffset =
     (case currentDoc of
        None \<Rightarrow> Some []
      | Some docText \<Rightarrow>
          map_option (completionResults notes) (linkContextScanner docText positionOffset))"

definition onCompletionResolve :: "completionItem \<Rightarrow> completionItem" where
  "onCompletionResolve item =
     (if item ''data'' = Some (JSNumber 1) then
        item(''detail'' \<mapsto> JSString ''TypeScript details'',
             ''documentation'' \<mapsto> JSString ''TypeScript documentation'')
      else if item ''data'' = Some (JSNumber 2) then
        item(''detail'' \<mapsto> JSString ''JavaScript details'',
             ''documentation'' \<mapsto> JSString ''JavaScript documentation'')
      else item)"

section \<open>The directory walk \<^verbatim>\<open>getAllFiles\<close>\<close>












section \<open>Properties of the backward scan\<close>

lemma indexOf_exitChars:
  "(indexOf (map Some exitChars) c = - 1) =
     (c \<noteq> Some [CHR 0x0A] \<and> c \<noteq> Some [CHR 0x0D, CHR 0x0A])"
  by (auto simp: exitChars_def)

lemma charAtIndex_single: "charAtIndex t i \<noteq> Some [a, b]"
  by (simp add: charAtIndex_def)

lemma charAtIndex_negative: "i < 0 \<Longrightarrow> charAtIndex t i = None"
  by (simp add: charAtIndex_def)

lemma scanBody_undefined:
  "currentChar s = None \<Longrightarrow>
   scanBody t s = Continue (stepBack t (s\<lparr> firstClosingBraceHit := False, firstOpeningBraceHit := False \<rparr>))"
  by (simp add: scanBody_def)

lemma scanLoop_returns_inside:
  assumes "scanLoop t s = Some y"
  shows "\<not> (currentPosition s < 0 \<and> currentChar s = None)"
proof (rule scanLoop.raw_induct [OF _ assms])
  fix f t s and y :: linkContext
  assume IH: "\<And>t s y. f t s = Some y \<Longrightarrow> \<not> (currentPosition s < 0 \<and> currentChar s = None)"
    and eq: "(case scanBody t s of
        Return r \<Rightarrow> Some r
      | Continue s' \<Rightarrow>
          (if indexOf (map Some exitChars) (currentChar s') = - 1
           then f t s'
           else Some NoContext)) = Some y"
  show "\<not> (currentPosition s < 0 \<and> currentChar s = None)"
  proof
    assume b: "currentPosition s < 0 \<and> currentChar s = None"
    let ?s' = "stepBack t (s\<lparr> firstClosingBraceHit := False, firstOpeningBraceHit := False \<rparr>)"
    from b have body: "scanBody t s = Continue ?s'" by (simp add: scanBody_undefined)
    from b have s': "currentPosition ?s' < 0 \<and> currentChar ?s' = None"
      by (simp add: stepBack_def charAtIndex_negative)
    from eq body s' have "f t ?s' = Some y"
      by (simp add: indexOf_exitChars)
    from IH [OF this] s' show False by simp
  qed
qed

lemma scanLoop_diverges_before_start:
  "currentPosition s < 0 \<Longrightarrow> currentChar s = None \<Longrightarrow> scanLoop t s = None"
  using scanLoop_returns_inside [of t s] by (cases "scanLoop t s") auto

lemma scanBody_first_round:
  "\<not> firstClosingBraceHit s \<Longrightarrow> \<not> firstOpeningBraceHit s \<Longrightarrow>
   \<exists>s'. scanBody t s = Continue s' \<and> currentPosition s' = currentPosition s - 1
      \<and> currentChar s' = charAtIndex t (currentPosition s - 1)"
  by (simp add: scanBody_def stepBack_def)

lemma charAtIndex_append_mid:
  "charAtIndex (a @ c # b) (int (length a)) = Some [c]"
  by (simp add: charAtIndex_def nth_append)

lemma scanLoop_Continue:
  "scanBody t s = Continue s' \<Longrightarrow> currentChar s' \<noteq> Some [CHR 0x0A] \<Longrightarrow>
   currentChar s' \<noteq> Some [CHR 0x0D, CHR 0x0A] \<Longrightarrow> scanLoop t s = scanLoop t s'"
  by (subst scanLoop.simps) (simp add: indexOf_exitChars)

lemma scanLoop_Return:
  "scanBody t s = Return r \<Longrightarrow> scanLoop t s = Some r"
  by (subst scanLoop.simps) simp


lemma scan_block:
  assumes "\<forall>c \<in> set xs. c \<noteq> CHR ''['' \<and> c \<noteq> CHR '']'' \<and> c \<noteq> CHR 0x0A"
    and "charAtIndex (pre @ xs @ post) (int (length pre) - 1) \<noteq> Some [CHR 0x0A]"
    and "currentPosition s = int (length pre) + int (length xs) - 1"
    and "currentChar s = charAtIndex (pre @ xs @ post) (currentPosition s)"
    and "\<not> firstClosingBraceHit s" and "\<not> firstOpeningBraceHit s"
  shows "scanLoop (pre @ xs @ post) s
       = scanLoop (pre @ xs @ post) (blockEnd (pre @ xs @ post) (length pre) xs s)"
  using assms
proof (induction xs arbitrary: s post rule: rev_induct)
  case Nil
  have "blockEnd (pre @ post) (length pre) [] s = s"
    using Nil by (simp add: blockEnd_def)
  then show ?case by simp
next
  case (snoc x ys)
  let ?t = "pre @ (ys @ [x]) @ post"
  have t: "?t = pre @ ys @ (x # post)" by simp
  have pos: "currentPosition s = int (length (pre @ ys))" using snoc.prems(3) by simp
  have ch: "currentChar s = Some [x]"
    using snoc.prems(4) charAtIndex_append_mid [of "pre @ ys" x post] pos by simp
  have x: "x \<noteq> CHR ''[''" "x \<noteq> CHR '']''" "x \<noteq> CHR 0x0A" using snoc.prems(1) by auto
  define s1 where "s1 = stepBack ?t
     (if x = CHR ''#'' then s\<lparr> afterHeadingMarker := True, headingMarkerPosition := currentPosition s \<rparr>
      else s\<lparr> firstClosingBraceHit := False, firstOpeningBraceHit := False \<rparr>)"
  have body: "scanBody ?t s = Continue s1"
    using ch x snoc.prems(5,6) by (simp add: scanBody_def s1_def)
  have s1pos: "currentPosition s1 = int (length pre) + int (length ys) - 1"
    using pos by (simp add: s1_def stepBack_def)
  have s1ch: "currentChar s1 = charAtIndex ?t (currentPosition s1)"
    by (simp add: s1_def stepBack_def)
  have s1flags: "\<not> firstClosingBraceHit s1" "\<not> firstOpeningBraceHit s1"
    using snoc.prems(5,6) by (simp_all add: s1_def stepBack_def)
  have nl: "currentChar s1 \<noteq> Some [CHR 0x0A]"
  proof (cases "ys = []")
    case True
    then show ?thesis using snoc.prems(2) s1ch s1pos by simp
  next
    case False
    then obtain zs z where ys: "ys = zs @ [z]" by (metis rev_exhaust)
    have "charAtIndex ?t (int (length (pre @ zs))) = Some [z]"
      using charAtIndex_append_mid [of "pre @ zs" z "x # post"] ys by simp
    moreover have "z \<noteq> CHR 0x0A" using snoc.prems(1) ys by auto
    ultimately show ?thesis using s1ch s1pos ys by simp
  qed
  have crlf: "currentChar s1 \<noteq> Some [CHR 0x0D, CHR 0x0A]"
    using s1ch by (simp add: charAtIndex_single)
  have step: "scanLoop ?t s = scanLoop ?t s1"
    by (rule scanLoop_Continue [OF body nl crlf])
  have IH: "scanLoop (pre @ ys @ (x # post)) s1
          = scanLoop (pre @ ys @ (x # post)) (blockEnd (pre @ ys @ (x # post)) (length pre) ys s1)"
  proof (rule snoc.IH)
    show "\<forall>c\<in>set ys. c \<noteq> CHR ''['' \<and> c \<noteq> CHR '']'' \<and> c \<noteq> CHR 0x0A" using snoc.prems(1) by simp
    show "charAtIndex (pre @ ys @ x # post) (int (length pre) - 1) \<noteq> Some [CHR 0x0A]"
      using snoc.prems(2) by simp
    show "currentPosition s1 = int (length pre) + int (length ys) - 1" by (rule s1pos)
    show "currentChar s1 = charAtIndex (pre @ ys @ x # post) (currentPosition s1)"
      using s1ch by simp
    show "\<not> firstClosingBraceHit s1" "\<not> firstOpeningBraceHit s1" by (rule s1flags)+
  qed
  have fin: "blockEnd (pre @ ys @ (x # post)) (length pre) ys s1
           = blockEnd ?t (length pre) (ys @ [x]) s"
    using pos by (auto simp: blockEnd_def s1_def stepBack_def takeWhile_append
        dest: set_takeWhileD)
  show ?case using step IH fin by simp
qed


lemma substring_segment:
  "substring (a @ b @ c) (int (length a)) (int (length a) + int (length b)) = b"
proof -
  let ?n = "int (length a)" and ?m = "int (length b)" and ?l = "int (length (a @ b @ c))"
  have len: "?l = ?n + ?m + int (length c)" by simp
  have lo: "min (max ?n 0) ?l = ?n" unfolding len by simp
  have hi: "min (max (?n + ?m) 0) ?l = ?n + ?m" unfolding len by simp
  have "substring (a @ b @ c) ?n (?n + ?m) = take (nat ?m) (drop (nat ?n) (a @ b @ c))"
    unfolding substring_def Let_def lo hi by simp
  then show ?thesis by simp
qed

lemma scan_open_link:
  assumes body: "\<forall>c \<in> set body. c \<noteq> CHR ''['' \<and> c \<noteq> CHR '']'' \<and> c \<noteq> CHR 0x0A"
    and post: "post = [] \<or> (hd post \<noteq> CHR ''['' \<and> hd post \<noteq> CHR '']'' \<and> hd post \<noteq> CHR ''#'')"
  shows "linkContextScanner (pre @ ''[['' @ body @ post) (int (length (pre @ ''[['' @ body)))
       = Some (if CHR ''#'' \<in> set body
               then HeadingLinkContext (takeWhile (\<lambda>c. c \<noteq> CHR ''#'') body)
               else FileLinkContext)"
proof -
  let ?t = "pre @ ''[['' @ body @ post"
  let ?pre = "pre @ ''[[''"
  let ?tw = "takeWhile (\<lambda>c. c \<noteq> CHR ''#'') body"
  have t: "?t = ?pre @ body @ post" by simp
  define s0 where "s0 = initialScan ?t (int (length (pre @ ''[['' @ body)))"
  define s1 where "s1 = stepBack ?t (s0\<lparr> firstClosingBraceHit := False, firstOpeningBraceHit := False \<rparr>)"
  define s2 where "s2 = blockEnd ?t (length ?pre) body s1"
  define s3 where "s3 = stepBack ?t (s2\<lparr> firstOpeningBraceHit := True \<rparr>)"
  have c0: "currentChar s0 = (if post = [] then None else Some [hd post])"
    using charAtIndex_append_mid [of "pre @ ''[['' @ body" "hd post" "tl post"]
    by (cases post) (simp_all add: s0_def initialScan_def charAtIndex_def)
  have body0: "scanBody ?t s0 = Continue s1"
    using c0 post by (auto simp: scanBody_def s1_def)
  have s1pos: "currentPosition s1 = int (length ?pre) + int (length body) - 1"
    by (simp add: s1_def stepBack_def s0_def initialScan_def)
  have s1ch: "currentChar s1 = charAtIndex ?t (currentPosition s1)"
    by (simp add: s1_def stepBack_def)
  have open1: "charAtIndex ?t (int (length ?pre) - 1) = Some ''[''"
    using charAtIndex_append_mid [of "pre @ ''[''" "CHR ''[''" "body @ post"] by simp
  have nl1: "currentChar s1 \<noteq> Some [CHR 0x0A]"
  proof (cases "body = []")
    case True
    then show ?thesis using s1ch s1pos open1 by simp
  next
    case False
    then obtain zs z where b: "body = zs @ [z]" by (metis rev_exhaust)
    have "charAtIndex ?t (int (length (?pre @ zs))) = Some [z]"
      using charAtIndex_append_mid [of "?pre @ zs" z post] b by simp
    moreover have "z \<noteq> CHR 0x0A" using body b by auto
    ultimately show ?thesis using s1ch s1pos b by simp
  qed
  have r1: "scanLoop ?t s0 = scanLoop ?t s1"
    using s1ch by (intro scanLoop_Continue [OF body0 nl1]) (simp add: charAtIndex_single)
  have r2: "scanLoop ?t s1 = scanLoop ?t s2"
    unfolding s2_def t
  proof (rule scan_block [OF body])
    show "charAtIndex (?pre @ body @ post) (int (length ?pre) - 1) \<noteq> Some [CHR 0x0A]"
      using open1 by simp
    show "currentPosition s1 = int (length ?pre) + int (length body) - 1" by (rule s1pos)
    show "currentChar s1 = charAtIndex (?pre @ body @ post) (currentPosition s1)"
      using s1ch by simp
    show "\<not> firstClosingBraceHit s1" "\<not> firstOpeningBraceHit s1"
      by (simp_all add: s1_def stepBack_def)
  qed
  have s2ch: "currentChar s2 = Some ''[''"
    using open1 by (simp add: s2_def blockEnd_def)
  have body2: "scanBody ?t s2 = Continue s3"
    using s2ch by (simp add: scanBody_def s3_def) (simp add: s2_def blockEnd_def)
  have s3ch: "currentChar s3 = Some ''[''"
    using charAtIndex_append_mid [of pre "CHR ''[''" "''['' @ body @ post"]
    by (simp add: s3_def stepBack_def s2_def blockEnd_def)
  have r3: "scanLoop ?t s2 = scanLoop ?t s3"
    using s3ch by (intro scanLoop_Continue [OF body2]) simp_all
  have s3: "firstOpeningBraceHit s3" "currentPosition s3 = int (length pre)"
    "afterHeadingMarker s3 = (CHR ''#'' \<in> set body)"
    "CHR ''#'' \<in> set body \<Longrightarrow>
       headingMarkerPosition s3 = int (length ?pre) + int (length ?tw)"
    by (simp_all add: s3_def stepBack_def s2_def blockEnd_def s1_def s0_def initialScan_def)
  have seg: "substring ?t (int (length ?pre)) (int (length ?pre) + int (length ?tw)) = ?tw"
  proof -
    let ?dw = "dropWhile (\<lambda>c. c \<noteq> CHR ''#'') body"
    have e: "?pre @ ?tw @ (?dw @ post) = ?t" by simp
    have "substring (?pre @ ?tw @ (?dw @ post)) (int (length ?pre))
            (int (length ?pre) + int (length ?tw)) = ?tw"
      by (rule substring_segment)
    then show ?thesis unfolding e .
  qed
  have p3: "currentPosition s3 + 2 = int (length ?pre)" using s3(2) by simp
  have r4: "scanLoop ?t s3 = Some (if CHR ''#'' \<in> set body
               then HeadingLinkContext ?tw else FileLinkContext)"
    using s3ch s3(1,3,4) seg by (intro scanLoop_Return) (simp add: scanBody_def p3)
  show ?thesis
    unfolding linkContextScanner_def using r1 r2 r3 r4 by (simp add: s0_def)
qed

lemma scan_plain_never_returns:
  assumes "\<forall>c \<in> set t. c \<noteq> CHR ''['' \<and> c \<noteq> CHR '']'' \<and> c \<noteq> CHR 0x0A"
  shows "linkContextScanner t (int (length t)) = None"
proof -
  define s0 where "s0 = initialScan t (int (length t))"
  define s1 where "s1 = stepBack t (s0\<lparr> firstClosingBraceHit := False, firstOpeningBraceHit := False \<rparr>)"
  define s2 where "s2 = blockEnd t 0 t s1"
  have body0: "scanBody t s0 = Continue s1"
    by (simp add: scanBody_def s1_def s0_def initialScan_def charAtIndex_def)
  have s1pos: "currentPosition s1 = int (length t) - 1"
    by (simp add: s1_def stepBack_def s0_def initialScan_def)
  have s1ch: "currentChar s1 = charAtIndex t (currentPosition s1)"
    by (simp add: s1_def stepBack_def)
  have nl1: "currentChar s1 \<noteq> Some [CHR 0x0A]"
  proof (cases "t = []")
    case True
    then show ?thesis using s1ch s1pos by (simp add: charAtIndex_negative)
  next
    case False
    then obtain zs z where b: "t = zs @ [z]" by (metis rev_exhaust)
    have "charAtIndex t (int (length zs)) = Some [z]"
      using charAtIndex_append_mid [of zs z "[]"] b by simp
    moreover have "z \<noteq> CHR 0x0A" using assms b by auto
    ultimately show ?thesis using s1ch s1pos b by simp
  qed
  have r1: "scanLoop t s0 = scanLoop t s1"
    using s1ch by (intro scanLoop_Continue [OF body0 nl1]) (simp add: charAtIndex_single)
  have "scanLoop ([] @ t @ []) s1 = scanLoop ([] @ t @ []) (blockEnd ([] @ t @ []) (length ([]::string)) t s1)"
  proof (rule scan_block [OF assms])
    show "charAtIndex ([] @ t @ []) (int (length ([]::string)) - 1) \<noteq> Some [CHR 0x0A]"
      by (simp add: charAtIndex_negative)
    show "currentPosition s1 = int (length ([]::string)) + int (length t) - 1" using s1pos by simp
    show "currentChar s1 = charAtIndex ([] @ t @ []) (currentPosition s1)" using s1ch by simp
    show "\<not> firstClosingBraceHit s1" "\<not> firstOpeningBraceHit s1"
      by (simp_all add: s1_def stepBack_def)
  qed
  then have r2: "scanLoop t s1 = scanLoop t s2" by (simp add: s2_def)
  have r3: "scanLoop t s2 = None"
    by (rule scanLoop_diverges_before_start) (simp_all add: s2_def blockEnd_def charAtIndex_negative)
  show ?thesis unfolding linkContextScanner_def using r1 r2 r3 by (simp add: s0_def)
qed

lemma linkContextScanner_cursor0: "linkContextScanner t 0 = None"
proof -
  let ?s = "initialScan t 0"
  have "\<not> firstClosingBraceHit ?s" "\<not> firstOpeningBraceHit ?s" "currentPosition ?s = 0"
    by (simp_all add: initialScan_def)
  with scanBody_first_round [of ?s t] obtain s' where
    s': "scanBody t ?s = Continue s'" "currentPosition s' = - 1" "currentChar s' = None"
    by (auto simp: charAtIndex_negative)
  then have "scanLoop t s' = None" by (simp add: scanLoop_diverges_before_start)
  with s' show ?thesis
    unfolding linkContextScanner_def
    by (subst scanLoop.simps) (simp add: indexOf_exitChars)
qed

text \<open>
  What a scan has read after some rounds: the state \<open>scanRounds\<close> gives is the one the
  loop continues from, and its heading marker is at the leftmost \<^verbatim>\<open>#\<close> among the
  offsets read so far.
\<close>

lemma scanRounds_snoc:
  "scanRounds (Suc n) t s0 =
     (case scanRounds n t s0 of None \<Rightarrow> None | Some s \<Rightarrow> scanRounds (Suc 0) t s)"
proof (induction n arbitrary: s0)
  case 0
  then show ?case by simp
next
  case (Suc n)
  show ?case
  proof (cases "scanBody t s0")
    case (Return r)
    then show ?thesis by simp
  next
    case (Continue s1)
    show ?thesis
    proof (cases "indexOf (map Some exitChars) (currentChar s1) = - 1")
      case True
      have "scanRounds (Suc (Suc n)) t s0 = scanRounds (Suc n) t s1"
        using Continue True by simp
      also have "\<dots> = (case scanRounds n t s1 of None \<Rightarrow> None
                           | Some s \<Rightarrow> scanRounds (Suc 0) t s)"
        by (rule Suc.IH)
      also have "scanRounds n t s1 = scanRounds (Suc n) t s0"
        using Continue True by simp
      finally show ?thesis .
    next
      case False
      with Continue show ?thesis by simp
    qed
  qed
qed

lemma scanRounds_scanLoop:
  "scanRounds n t s0 = Some s \<Longrightarrow> scanLoop t s0 = scanLoop t s"
proof (induction n arbitrary: s0)
  case 0
  then show ?case by simp
next
  case (Suc n)
  from Suc.prems obtain s1 where
    b: "scanBody t s0 = Continue s1"
    and e: "indexOf (map Some exitChars) (currentChar s1) = - 1"
    and r: "scanRounds n t s1 = Some s"
    by (auto split: scanStep.splits if_splits)
  have "scanLoop t s0 = scanLoop t s1"
    using b e by (subst scanLoop.simps) simp
  with Suc.IH [OF r] show ?case by simp
qed

lemma scanRounds_one:
  "scanRounds (Suc 0) t s' = Some s \<Longrightarrow> scanBody t s' = Continue s"
  by (auto split: scanStep.splits if_splits)

lemma scanBody_Continue_cases:
  assumes "scanBody t s' = Continue s"
  shows "currentPosition s = currentPosition s' - 1
    \<and> currentChar s = charAtIndex t (currentPosition s)
    \<and> (if currentChar s' = Some ''#''
        then afterHeadingMarker s \<and> headingMarkerPosition s = currentPosition s'
        else afterHeadingMarker s = afterHeadingMarker s'
           \<and> headingMarkerPosition s = headingMarkerPosition s')"
  using assms by (auto simp: scanBody_def stepBack_def split: if_splits)

lemma scanRounds_marker:
  assumes "scanRounds n t (initialScan t c) = Some s"
  shows "currentPosition s = c - int n
    \<and> currentChar s = charAtIndex t (currentPosition s)
    \<and> (afterHeadingMarker s
         = (\<exists>i. currentPosition s < i \<and> i \<le> c \<and> charAtIndex t i = Some ''#''))
    \<and> (afterHeadingMarker s \<longrightarrow>
          currentPosition s < headingMarkerPosition s \<and> headingMarkerPosition s \<le> c
          \<and> charAtIndex t (headingMarkerPosition s) = Some ''#''
          \<and> (\<forall>i. currentPosition s < i \<and> i < headingMarkerPosition s
                 \<longrightarrow> charAtIndex t i \<noteq> Some ''#''))"
  using assms
proof (induction n arbitrary: s)
  case 0
  then show ?case by (auto simp: initialScan_def)
next
  case (Suc n)
  from Suc.prems obtain s' where
    r: "scanRounds n t (initialScan t c) = Some s'" and o: "scanRounds (Suc 0) t s' = Some s"
    by (auto simp: scanRounds_snoc simp del: scanRounds.simps split: option.splits)
  note I = Suc.IH [OF r]
  note B = scanBody_Continue_cases [OF scanRounds_one [OF o]]
  from I B have pos: "currentPosition s = c - int (Suc n)" by simp
  from B have ch: "currentChar s = charAtIndex t (currentPosition s)" by simp
  from I B have p': "currentPosition s' = currentPosition s + 1" "currentPosition s' \<le> c"
    and c': "currentChar s' = charAtIndex t (currentPosition s')"
    by simp_all
  show ?case
  proof (cases "currentChar s' = Some ''#''")
    case True
    with B have m: "afterHeadingMarker s" "headingMarkerPosition s = currentPosition s'"
      by simp_all
    have ex: "\<exists>i. currentPosition s < i \<and> i \<le> c \<and> charAtIndex t i = Some ''#''"
      using True c' p' by (intro exI [of _ "currentPosition s'"]) simp
    have least: "\<forall>i. currentPosition s < i \<and> i < headingMarkerPosition s
                 \<longrightarrow> charAtIndex t i \<noteq> Some ''#''"
      using m p' by auto
    from pos ch m ex least True c' p' show ?thesis by simp
  next
    case False
    with B have m: "afterHeadingMarker s = afterHeadingMarker s'"
      "headingMarkerPosition s = headingMarkerPosition s'"
      by simp_all
    have range: "(currentPosition s < i \<and> i \<le> c \<and> charAtIndex t i = Some ''#'')
        = (currentPosition s' < i \<and> i \<le> c \<and> charAtIndex t i = Some ''#'')" for i
    proof (cases "i = currentPosition s'")
      case True
      with False c' show ?thesis by simp
    next
      case False
      with p' show ?thesis by auto
    qed
    have a: "afterHeadingMarker s
         = (\<exists>i. currentPosition s < i \<and> i \<le> c \<and> charAtIndex t i = Some ''#'')"
      using I m range by simp
    have b: "currentPosition s < headingMarkerPosition s \<and> headingMarkerPosition s \<le> c
          \<and> charAtIndex t (headingMarkerPosition s) = Some ''#''
          \<and> (\<forall>i. currentPosition s < i \<and> i < headingMarkerPosition s
                 \<longrightarrow> charAtIndex t i \<noteq> Some ''#'')"
      if "afterHeadingMarker s"
    proof -
      from that m have "afterHeadingMarker s'" by simp
      with I have J: "currentPosition s' < headingMarkerPosition s'"
        "headingMarkerPosition s' \<le> c"
        "charAtIndex t (headingMarkerPosition s') = Some ''#''"
        "\<forall>i. currentPosition s' < i \<and> i < headingMarkerPosition s'
                 \<longrightarrow> charAtIndex t i \<noteq> Some ''#''"
        by blast+
      have "charAtIndex t i \<noteq> Some ''#''"
        if "currentPosition s < i" "i < headingMarkerPosition s" for i
      proof (cases "i = currentPosition s'")
        case True
        with False c' show ?thesis by simp
      next
        case False
        with that p' m have "currentPosition s' < i \<and> i < headingMarkerPosition s'" by simp
        with J(4) show ?thesis by blast
      qed
      with J m p' show ?thesis by simp
    qed
    from pos ch a b show ?thesis by blast
  qed
qed

lemma scanLoop_open_bracket_pair:
  assumes c: "currentChar s = Some ''[''" and f: "\<not> firstOpeningBraceHit s"
    and p: "charAtIndex t (currentPosition s - 1) = Some ''[''"
  shows "scanLoop t s =
          Some (if afterHeadingMarker s
                then HeadingLinkContext
                       (substring t (currentPosition s + 1) (headingMarkerPosition s))
                else FileLinkContext)"
proof -
  let ?s1 = "stepBack t (s\<lparr> firstOpeningBraceHit := True \<rparr>)"
  from c f have b: "scanBody t s = Continue ?s1" by (simp add: scanBody_def)
  have c1: "currentChar ?s1 = Some ''[''" using p by (simp add: stepBack_def)
  have "scanLoop t s = scanLoop t ?s1"
    using c1 by (intro scanLoop_Continue [OF b]) simp_all
  moreover have "scanLoop t ?s1 =
          Some (if afterHeadingMarker s
                then HeadingLinkContext
                       (substring t (currentPosition s + 1) (headingMarkerPosition s))
                else FileLinkContext)"
    using c1 by (intro scanLoop_Return) (simp add: scanBody_def, simp add: stepBack_def add.commute)
  ultimately show ?thesis by simp
qed

lemma scan_leftmost_marker:
  assumes r: "scanRounds n t (initialScan t cursor) = Some s"
    and c: "currentChar s = Some ''[''" and f: "\<not> firstOpeningBraceHit s"
    and p: "charAtIndex t (currentPosition s - 1) = Some ''[''"
    and m: "currentPosition s < m" "m \<le> cursor" "charAtIndex t m = Some ''#''"
    and least: "\<forall>i. currentPosition s < i \<and> i < m \<longrightarrow> charAtIndex t i \<noteq> Some ''#''"
  shows "linkContextScanner t cursor
       = Some (HeadingLinkContext (substring t (currentPosition s + 1) m))"
proof -
  note I = scanRounds_marker [OF r]
  from I m have a: "afterHeadingMarker s" by blast
  with I have J: "currentPosition s < headingMarkerPosition s" "headingMarkerPosition s \<le> cursor"
    "charAtIndex t (headingMarkerPosition s) = Some ''#''"
    "\<forall>i. currentPosition s < i \<and> i < headingMarkerPosition s
           \<longrightarrow> charAtIndex t i \<noteq> Some ''#''"
    by simp_all
  have "\<not> headingMarkerPosition s < m" using least J(1,3) by blast
  moreover have "\<not> m < headingMarkerPosition s" using J(4) m(1,3) by blast
  ultimately have e: "headingMarkerPosition s = m" by simp
  have "linkContextScanner t cursor = scanLoop t s"
    unfolding linkContextScanner_def by (rule scanRounds_scanLoop [OF r])
  with scanLoop_open_bracket_pair [OF c f p] a e show ?thesis by simp
qed

section \<open>The claims about the backward scan\<close>

text \<open>
  Claim C1: a scan that reaches the start of the buffer without meeting \<^verbatim>\<open>[[\<close> or \<^verbatim>\<open>]]\<close>
  terminates with \<open>NoContext\<close>, and in particular every request at cursor offset \<open>0\<close>
  does.

  The loop does not behave so. Its condition tests the character just read against
  the line feed only; before offset \<open>0\<close> that character is \<^verbatim>\<open>undefined\<close>, which is not
  a line feed, so the loop goes on reading offsets \<open>-1, -2, \<dots>\<close> for ever. The theorem
  states that the scan from offset \<open>0\<close> returns for no text at all, and neither does the
  scan of \<^verbatim>\<open>abc\<close> from its end.
\<close>

theorem scan_from_buffer_start_never_returns:
  "linkContextScanner t 0 = None
   \<and> onCompletion notes (Some t) 0 = None
   \<and> linkContextScanner ''abc'' 3 = None
   \<and> onCompletion notes (Some ''abc'') 3 = None"
proof -
  have "linkContextScanner ''abc'' (int (length ''abc'')) = None"
    by (rule scan_plain_never_returns) simp
  then have "linkContextScanner ''abc'' 3 = None" by simp
  then show ?thesis by (simp add: onCompletion_def linkContextScanner_cursor0)
qed

text \<open>
  Claim C6: when the scan reads a second consecutive \<^verbatim>\<open>]\<close> it returns \<open>NoContext\<close>; the
  scan of \<^verbatim>\<open>[[Note]] more\<close> from offset 13 does. In the general part the scan is at a
  \<^verbatim>\<open>]\<close> in any state \<open>s\<close>, and the character at the offset before is a \<^verbatim>\<open>]\<close> too.
\<close>

theorem closed_link_is_NoContext:
  "(currentChar s = Some '']'' \<and> charAtIndex t (currentPosition s - 1) = Some '']''
      \<longrightarrow> scanLoop t s = Some NoContext)
   \<and> linkContextScanner ''[[Note]] more'' 13 = Some NoContext"
proof -
  have "scanLoop t s = Some NoContext"
    if c: "currentChar s = Some '']''" and p: "charAtIndex t (currentPosition s - 1) = Some '']''"
  proof (cases "firstClosingBraceHit s")
    case True
    with c show ?thesis by (intro scanLoop_Return) (simp add: scanBody_def)
  next
    case False
    let ?s1 = "stepBack t (s\<lparr> firstClosingBraceHit := True \<rparr>)"
    from False c have b: "scanBody t s = Continue ?s1" by (simp add: scanBody_def)
    have c1: "currentChar ?s1 = Some '']''" using p by (simp add: stepBack_def)
    have "scanLoop t s = scanLoop t ?s1"
      using c1 by (intro scanLoop_Continue [OF b]) simp_all
    moreover have "scanLoop t ?s1 = Some NoContext"
      using c1 by (intro scanLoop_Return) (simp add: scanBody_def, simp add: stepBack_def)
    ultimately show ?thesis by simp
  qed
  moreover have "linkContextScanner ''[[Note]] more'' 13 = Some NoContext" by code_simp
  ultimately show ?thesis by simp
qed

theorem closed_link_is_NoContext_witness:
  "currentChar (initialScan ''a]]'' 2) = Some '']''
   \<and> charAtIndex ''a]]'' (currentPosition (initialScan ''a]]'' 2) - 1) = Some '']''
   \<and> scanLoop ''a]]'' (initialScan ''a]]'' 2) = Some NoContext"
  using closed_link_is_NoContext [of "initialScan ''a]]'' 2" "''a]]''"]
  by (simp add: initialScan_def charAtIndex_def)

text \<open>
  Claim C4, as stated: when the scan terminates on the second \<^verbatim>\<open>[\<close> of a pair, the
  identifier of the heading-link context is the text from the offset of the
  \<^emph>\<open>first-read\<close> \<^verbatim>\<open>[\<close> plus 2 up to the marker offset.

  On \<^verbatim>\<open>See [[Note#Head\<close> scanned from offset 16 the first \<^verbatim>\<open>[\<close> read is the one at
  offset 5 (after eleven rounds the scan stands there with \<open>firstOpeningBraceHit\<close> still
  down), the scan ends one round later at offset 4, and its result is \<^verbatim>\<open>Note\<close>, while
  the text from offset \<open>5 + 2\<close> up to the marker at offset 10 is \<^verbatim>\<open>ote\<close>.
\<close>

theorem first_read_bracket_offset_counterexample:
  "scanRounds 11 ''See [[Note#Head'' (initialScan ''See [[Note#Head'' 16)
     = Some \<lparr> currentPosition = 5, currentChar = Some ''['', afterHeadingMarker = True,
              headingMarkerPosition = 10, firstClosingBraceHit = False,
              firstOpeningBraceHit = False \<rparr>
   \<and> scanRounds 12 ''See [[Note#Head'' (initialScan ''See [[Note#Head'' 16)
     = Some \<lparr> currentPosition = 4, currentChar = Some ''['', afterHeadingMarker = True,
              headingMarkerPosition = 10, firstClosingBraceHit = False,
              firstOpeningBraceHit = True \<rparr>
   \<and> linkContextScanner ''See [[Note#Head'' 16 = Some (HeadingLinkContext ''Note'')
   \<and> substring ''See [[Note#Head'' (5 + 2) 10 = ''ote''
   \<and> linkContextScanner ''See [[Note#Head'' 16
       \<noteq> Some (HeadingLinkContext (substring ''See [[Note#Head'' (5 + 2) 10))"
  by code_simp

text \<open>
  Claim C4, amended: the identifier starts at the offset of the \<^verbatim>\<open>[\<close> on which the scan
  terminates (the one read second, the left one of the pair) plus 2, which is the
  offset of the first-read \<^verbatim>\<open>[\<close> plus 1. When the scan stands at a \<^verbatim>\<open>[\<close> with
  \<open>firstOpeningBraceHit\<close> down and the character before it is a \<^verbatim>\<open>[\<close> too, it returns the
  heading-link context with the text from that earlier offset plus 2 up to the marker
  offset if a \<^verbatim>\<open>#\<close> was met before, and the file-link context otherwise; when the scan
  stands at a \<^verbatim>\<open>[\<close> with \<open>firstOpeningBraceHit\<close> up it returns at once, with its own offset
  plus 2. The scan of \<^verbatim>\<open>See [[Note#Head\<close> from offset 16 yields the heading-link context
  of \<^verbatim>\<open>Note\<close>, the scan of \<^verbatim>\<open>See [[Note\<close> from offset 10 the file-link context.
\<close>

theorem open_bracket_pair_classification:
  "(currentChar s = Some ''['' \<and> \<not> firstOpeningBraceHit s
      \<and> charAtIndex t (currentPosition s - 1) = Some ''[''
     \<longrightarrow> scanLoop t s =
          Some (if afterHeadingMarker s
                then HeadingLinkContext
                       (substring t ((currentPosition s - 1) + 2) (headingMarkerPosition s))
                else FileLinkContext))
   \<and> (currentChar s = Some ''['' \<and> firstOpeningBraceHit s
     \<longrightarrow> scanLoop t s =
          Some (if afterHeadingMarker s
                then HeadingLinkContext
                       (substring t (currentPosition s + 2) (headingMarkerPosition s))
                else FileLinkContext))
   \<and> linkContextScanner ''See [[Note#Head'' 16 = Some (HeadingLinkContext ''Note'')
   \<and> linkContextScanner ''See [[Note'' 10 = Some FileLinkContext"
proof -
  have second: "scanLoop t s =
          Some (if afterHeadingMarker s
                then HeadingLinkContext
                       (substring t (currentPosition s + 2) (headingMarkerPosition s))
                else FileLinkContext)"
    if "currentChar s = Some ''[''" and "firstOpeningBraceHit s" for s
    using that by (intro scanLoop_Return) (simp add: scanBody_def)
  have first: "scanLoop t s =
          Some (if afterHeadingMarker s
                then HeadingLinkContext
                       (substring t ((currentPosition s - 1) + 2) (headingMarkerPosition s))
                else FileLinkContext)"
    if c: "currentChar s = Some ''[''" and f: "\<not> firstOpeningBraceHit s"
      and p: "charAtIndex t (currentPosition s - 1) = Some ''[''"
  proof -
    let ?s1 = "stepBack t (s\<lparr> firstOpeningBraceHit := True \<rparr>)"
    from c f have b: "scanBody t s = Continue ?s1" by (simp add: scanBody_def)
    have c1: "currentChar ?s1 = Some ''[''" using p by (simp add: stepBack_def)
    have "scanLoop t s = scanLoop t ?s1"
      using c1 by (intro scanLoop_Continue [OF b]) simp_all
    moreover have "firstOpeningBraceHit ?s1" by (simp add: stepBack_def)
    note second [OF c1 this]
    ultimately show ?thesis by (simp add: stepBack_def)
  qed
  have e1: "linkContextScanner ''See [[Note#Head'' 16 = Some (HeadingLinkContext ''Note'')"
    by code_simp
  have e2: "linkContextScanner ''See [[Note'' 10 = Some FileLinkContext"
    by code_simp
  from first second [of s] e1 e2 show ?thesis by blast
qed

theorem open_bracket_pair_classification_witness:
  "scanLoop ''[[N#''
       \<lparr> currentPosition = 1, currentChar = Some ''['', afterHeadingMarker = True,
         headingMarkerPosition = 3, firstClosingBraceHit = False, firstOpeningBraceHit = False \<rparr>
     = Some (HeadingLinkContext ''N'')
   \<and> scanLoop ''[[N#''
       \<lparr> currentPosition = 0, currentChar = Some ''['', afterHeadingMarker = True,
         headingMarkerPosition = 3, firstClosingBraceHit = False, firstOpeningBraceHit = True \<rparr>
     = Some (HeadingLinkContext ''N'')"
  using open_bracket_pair_classification
      [of "\<lparr> currentPosition = 1, currentChar = Some ''['', afterHeadingMarker = True,
              headingMarkerPosition = 3, firstClosingBraceHit = False,
              firstOpeningBraceHit = False \<rparr>" "''[[N#''"]
    open_bracket_pair_classification
      [of "\<lparr> currentPosition = 0, currentChar = Some ''['', afterHeadingMarker = True,
              headingMarkerPosition = 3, firstClosingBraceHit = False,
              firstOpeningBraceHit = True \<rparr>" "''[[N#''"]
  by (simp add: charAtIndex_def substring_def)

text \<open>
  Claim C7: in every state, a round of the loop on a character other than \<^verbatim>\<open>#\<close>, \<^verbatim>\<open>[\<close>
  and \<^verbatim>\<open>]\<close> (or on no character) lowers both bracket flags and leaves
  \<open>afterHeadingMarker\<close> and \<open>headingMarkerPosition\<close> as they were. Hence a text that ends
  in \<^verbatim>\<open>[[\<close>, an identifier, \<^verbatim>\<open>#\<close> and further characters, none of them a bracket, a
  \<^verbatim>\<open>#\<close> or a line feed, is classified from its end as a heading link to that identifier;
  \<^verbatim>\<open>[[A# b c\<close> is one such text.
\<close>

theorem other_character_resets_bracket_flags_only:
  "(currentChar s \<noteq> Some ''#'' \<and> currentChar s \<noteq> Some ''['' \<and> currentChar s \<noteq> Some '']''
      \<longrightarrow> scanBody t s =
            Continue \<lparr> currentPosition = currentPosition s - 1,
                       currentChar = charAtIndex t (currentPosition s - 1),
                       afterHeadingMarker = afterHeadingMarker s,
                       headingMarkerPosition = headingMarkerPosition s,
                       firstClosingBraceHit = False,
                       firstOpeningBraceHit = False \<rparr>)
   \<and> ((\<forall>c \<in> set (ident @ rest).
          c \<noteq> CHR ''#'' \<and> c \<noteq> CHR ''['' \<and> c \<noteq> CHR '']'' \<and> c \<noteq> CHR 0x0A)
      \<longrightarrow> linkContextScanner (pre @ ''[['' @ ident @ ''#'' @ rest)
             (int (length (pre @ ''[['' @ ident @ ''#'' @ rest)))
           = Some (HeadingLinkContext ident))
   \<and> linkContextScanner ''[[A# b c'' 8 = Some (HeadingLinkContext ''A'')"
proof -
  have step: "scanBody t s =
            Continue \<lparr> currentPosition = currentPosition s - 1,
                       currentChar = charAtIndex t (currentPosition s - 1),
                       afterHeadingMarker = afterHeadingMarker s,
                       headingMarkerPosition = headingMarkerPosition s,
                       firstClosingBraceHit = False,
                       firstOpeningBraceHit = False \<rparr>"
    if "currentChar s \<noteq> Some ''#''" "currentChar s \<noteq> Some ''[''" "currentChar s \<noteq> Some '']''"
    using that by (cases s) (simp add: scanBody_def stepBack_def)
  have gen: "linkContextScanner (pre @ ''[['' @ ident @ ''#'' @ rest)
             (int (length (pre @ ''[['' @ ident @ ''#'' @ rest)))
           = Some (HeadingLinkContext ident)"
    if h: "\<forall>c \<in> set (ident @ rest).
          c \<noteq> CHR ''#'' \<and> c \<noteq> CHR ''['' \<and> c \<noteq> CHR '']'' \<and> c \<noteq> CHR 0x0A"
  proof -
    have tw: "takeWhile (\<lambda>c. c \<noteq> CHR ''#'') (ident @ ''#'' @ rest) = ident"
      using h by (simp add: takeWhile_append2 takeWhile_tail)
    have "linkContextScanner (pre @ ''[['' @ (ident @ ''#'' @ rest) @ [])
             (int (length (pre @ ''[['' @ (ident @ ''#'' @ rest))))
           = Some (if CHR ''#'' \<in> set (ident @ ''#'' @ rest)
               then HeadingLinkContext (takeWhile (\<lambda>c. c \<noteq> CHR ''#'') (ident @ ''#'' @ rest))
               else FileLinkContext)"
      using h by (intro scan_open_link) auto
    then show ?thesis unfolding tw by simp
  qed
  have ex: "linkContextScanner ''[[A# b c'' 8 = Some (HeadingLinkContext ''A'')"
    by code_simp
  from step gen ex show ?thesis by blast
qed

theorem other_character_resets_bracket_flags_only_witness:
  "scanBody ''[[A# b c''
       \<lparr> currentPosition = 5, currentChar = Some ''b'', afterHeadingMarker = False,
         headingMarkerPosition = 0, firstClosingBraceHit = True, firstOpeningBraceHit = True \<rparr>
     = Continue \<lparr> currentPosition = 4, currentChar = Some '' '', afterHeadingMarker = False,
         headingMarkerPosition = 0, firstClosingBraceHit = False, firstOpeningBraceHit = False \<rparr>
   \<and> linkContextScanner ''x [[A# b c'' 10 = Some (HeadingLinkContext ''A'')"
  using other_character_resets_bracket_flags_only
    [of "\<lparr> currentPosition = 5, currentChar = Some ''b'', afterHeadingMarker = False,
         headingMarkerPosition = 0, firstClosingBraceHit = True, firstOpeningBraceHit = True \<rparr>"
        "''[[A# b c''" "''A''" "'' b c''" "''x ''"]
  by (simp add: charAtIndex_def)

text \<open>
  Claim C9, as stated: when more than one \<^verbatim>\<open>#\<close> lies between the terminating \<^verbatim>\<open>[[\<close> and
  the cursor on the same line, the identifier extends from just after the \<^verbatim>\<open>[[\<close> up to
  the leftmost such \<^verbatim>\<open>#\<close>.

  In \<^verbatim>\<open>[[#[#C\<close>, scanned from offset 6, the \<^verbatim>\<open>#\<close> at offsets 2 and 4 lie between the
  \<^verbatim>\<open>[[\<close> at offsets 0 and 1 and the cursor. The \<^verbatim>\<open>[\<close> at offset 3 raises
  \<open>firstOpeningBraceHit\<close> and the \<^verbatim>\<open>#\<close> at offset 2 does not lower it, so the scan ends at
  offset 1, where it stands after five rounds with the flag up. It calls
  \<^verbatim>\<open>substring(3, 2)\<close>, which is the text from offset 2 to offset 3, the \<^verbatim>\<open>#\<close> itself; the
  claim gives the empty text from offset 2, just after the \<^verbatim>\<open>[[\<close>, to the leftmost
  \<^verbatim>\<open>#\<close>, at offset 2. The scan of \<^verbatim>\<open>[[##[\<close> from offset 4 ends likewise.
\<close>

theorem bracket_after_marker_counterexample:
  "scanRounds 5 ''[[#[#C'' (initialScan ''[[#[#C'' 6)
     = Some \<lparr> currentPosition = 1, currentChar = Some ''['', afterHeadingMarker = True,
              headingMarkerPosition = 2, firstClosingBraceHit = False,
              firstOpeningBraceHit = True \<rparr>
   \<and> charAtIndex ''[[#[#C'' 0 = Some ''[''
   \<and> charAtIndex ''[[#[#C'' 2 = Some ''#''
   \<and> charAtIndex ''[[#[#C'' 4 = Some ''#''
   \<and> linkContextScanner ''[[#[#C'' 6 = Some (HeadingLinkContext ''#'')
   \<and> substring ''[[#[#C'' 2 2 = []
   \<and> linkContextScanner ''[[#[#C'' 6
       \<noteq> Some (HeadingLinkContext (substring ''[[#[#C'' 2 2))
   \<and> linkContextScanner ''[[##['' 4 = Some (HeadingLinkContext ''#'')
   \<and> linkContextScanner ''[[##['' 4
       \<noteq> Some (HeadingLinkContext (substring ''[[##['' 2 2))"
  by code_simp

text \<open>
  Claim C9, amended: every \<^verbatim>\<open>#\<close> the scan reads overwrites \<open>headingMarkerPosition\<close> with
  its own offset. When the scan from the cursor, after some rounds, reads the right
  \<^verbatim>\<open>[\<close> of a \<^verbatim>\<open>[[\<close> with \<open>firstOpeningBraceHit\<close> down, and \<open>m\<close> is the offset of the
  leftmost \<^verbatim>\<open>#\<close> after that \<^verbatim>\<open>[\<close> and not after the cursor offset, the identifier is
  the text from just after the \<^verbatim>\<open>[[\<close> up to \<open>m\<close>. The flag is down there in particular
  when the text ends in \<^verbatim>\<open>[[\<close>, an identifier free of \<^verbatim>\<open>#\<close>, a \<^verbatim>\<open>#\<close>, and a rest that
  may hold more \<^verbatim>\<open>#\<close> but no bracket and no line feed, and the cursor is at its end.
  The scan of \<^verbatim>\<open>[[A#B#C\<close> from offset 7 yields \<^verbatim>\<open>A\<close>, not \<^verbatim>\<open>A#B\<close>.
\<close>

theorem leftmost_heading_marker_bounds_identifier:
  "(currentChar h = Some ''#''
      \<longrightarrow> scanBody t h =
            Continue \<lparr> currentPosition = currentPosition h - 1,
                       currentChar = charAtIndex t (currentPosition h - 1),
                       afterHeadingMarker = True,
                       headingMarkerPosition = currentPosition h,
                       firstClosingBraceHit = firstClosingBraceHit h,
                       firstOpeningBraceHit = firstOpeningBraceHit h \<rparr>)
   \<and> (scanRounds n t (initialScan t cursor) = Some s
       \<and> currentChar s = Some ''['' \<and> \<not> firstOpeningBraceHit s
       \<and> charAtIndex t (currentPosition s - 1) = Some ''[''
       \<and> currentPosition s < m \<and> m \<le> cursor \<and> charAtIndex t m = Some ''#''
       \<and> (\<forall>i. currentPosition s < i \<and> i < m \<longrightarrow> charAtIndex t i \<noteq> Some ''#'')
      \<longrightarrow> linkContextScanner t cursor
          = Some (HeadingLinkContext (substring t (currentPosition s + 1) m)))
   \<and> ((\<forall>c \<in> set ident. c \<noteq> CHR ''#'' \<and> c \<noteq> CHR ''['' \<and> c \<noteq> CHR '']'' \<and> c \<noteq> CHR 0x0A)
       \<and> (\<forall>c \<in> set rest. c \<noteq> CHR ''['' \<and> c \<noteq> CHR '']'' \<and> c \<noteq> CHR 0x0A)
      \<longrightarrow> linkContextScanner (pre @ ''[['' @ ident @ ''#'' @ rest)
             (int (length (pre @ ''[['' @ ident @ ''#'' @ rest)))
           = Some (HeadingLinkContext ident))
   \<and> linkContextScanner ''[[A#B#C'' 7 = Some (HeadingLinkContext ''A'')
   \<and> linkContextScanner ''[[A#B#C'' 7 \<noteq> Some (HeadingLinkContext ''A#B'')"
proof -
  have step: "scanBody t h =
            Continue \<lparr> currentPosition = currentPosition h - 1,
                       currentChar = charAtIndex t (currentPosition h - 1),
                       afterHeadingMarker = True,
                       headingMarkerPosition = currentPosition h,
                       firstClosingBraceHit = firstClosingBraceHit h,
                       firstOpeningBraceHit = firstOpeningBraceHit h \<rparr>"
    if "currentChar h = Some ''#''"
    using that by (cases h) (simp add: scanBody_def stepBack_def)
  have left: "linkContextScanner t cursor
          = Some (HeadingLinkContext (substring t (currentPosition s + 1) m))"
    if "scanRounds n t (initialScan t cursor) = Some s"
      "currentChar s = Some ''[''" "\<not> firstOpeningBraceHit s"
      "charAtIndex t (currentPosition s - 1) = Some ''[''"
      "currentPosition s < m" "m \<le> cursor" "charAtIndex t m = Some ''#''"
      "\<forall>i. currentPosition s < i \<and> i < m \<longrightarrow> charAtIndex t i \<noteq> Some ''#''"
    using that by (rule scan_leftmost_marker)
  have gen: "linkContextScanner (pre @ ''[['' @ ident @ ''#'' @ rest)
             (int (length (pre @ ''[['' @ ident @ ''#'' @ rest)))
           = Some (HeadingLinkContext ident)"
    if h: "\<forall>c \<in> set ident. c \<noteq> CHR ''#'' \<and> c \<noteq> CHR ''['' \<and> c \<noteq> CHR '']'' \<and> c \<noteq> CHR 0x0A"
      and r: "\<forall>c \<in> set rest. c \<noteq> CHR ''['' \<and> c \<noteq> CHR '']'' \<and> c \<noteq> CHR 0x0A"
  proof -
    have tw: "takeWhile (\<lambda>c. c \<noteq> CHR ''#'') (ident @ ''#'' @ rest) = ident"
      using h by (simp add: takeWhile_append2 takeWhile_tail)
    have "linkContextScanner (pre @ ''[['' @ (ident @ ''#'' @ rest) @ [])
             (int (length (pre @ ''[['' @ (ident @ ''#'' @ rest))))
           = Some (if CHR ''#'' \<in> set (ident @ ''#'' @ rest)
               then HeadingLinkContext (takeWhile (\<lambda>c. c \<noteq> CHR ''#'') (ident @ ''#'' @ rest))
               else FileLinkContext)"
      using h r by (intro scan_open_link) auto
    then show ?thesis unfolding tw by simp
  qed
  have ex: "linkContextScanner ''[[A#B#C'' 7 = Some (HeadingLinkContext ''A'')"
    by code_simp
  from step left gen ex show ?thesis by auto
qed

theorem leftmost_heading_marker_bounds_identifier_witness:
  "scanBody ''[[A#B#C''
       \<lparr> currentPosition = 3, currentChar = Some ''#'', afterHeadingMarker = True,
         headingMarkerPosition = 5, firstClosingBraceHit = False, firstOpeningBraceHit = False \<rparr>
     = Continue \<lparr> currentPosition = 2, currentChar = Some ''A'', afterHeadingMarker = True,
         headingMarkerPosition = 3, firstClosingBraceHit = False, firstOpeningBraceHit = False \<rparr>
   \<and> linkContextScanner ''x [[A#b[c#d] e'' 11 = Some (HeadingLinkContext ''A'')
   \<and> linkContextScanner ''see [[Note#One#Two'' 18 = Some (HeadingLinkContext ''Note'')"
proof -
  let ?t = "''x [[A#b[c#d] e''"
  let ?s = "\<lparr> currentPosition = 3, currentChar = Some ''['', afterHeadingMarker = True,
         headingMarkerPosition = 5, firstClosingBraceHit = False, firstOpeningBraceHit = False \<rparr>"
  let ?h = "\<lparr> currentPosition = 3, currentChar = Some ''#'', afterHeadingMarker = True,
         headingMarkerPosition = 5, firstClosingBraceHit = False, firstOpeningBraceHit = False \<rparr>"
  have r: "scanRounds 8 ?t (initialScan ?t 11) = Some ?s" by code_simp
  have l: "\<forall>i. currentPosition ?s < i \<and> i < 5 \<longrightarrow> charAtIndex ?t i \<noteq> Some ''#''"
  proof (intro allI impI)
    fix i :: int
    assume "currentPosition ?s < i \<and> i < 5"
    then have "i = 4" by simp
    then show "charAtIndex ?t i \<noteq> Some ''#''" by (simp add: charAtIndex_def)
  qed
  have hyp: "scanRounds 8 ?t (initialScan ?t 11) = Some ?s
       \<and> currentChar ?s = Some ''['' \<and> \<not> firstOpeningBraceHit ?s
       \<and> charAtIndex ?t (currentPosition ?s - 1) = Some ''[''
       \<and> currentPosition ?s < 5 \<and> (5::int) \<le> 11 \<and> charAtIndex ?t 5 = Some ''#''
       \<and> (\<forall>i. currentPosition ?s < i \<and> i < 5 \<longrightarrow> charAtIndex ?t i \<noteq> Some ''#'')"
    using r l by (simp add: charAtIndex_def)
  have hc: "currentChar ?h = Some ''#''" by simp
  have hi: "(\<forall>c \<in> set ''Note''. c \<noteq> CHR ''#'' \<and> c \<noteq> CHR ''['' \<and> c \<noteq> CHR '']'' \<and> c \<noteq> CHR 0x0A)
       \<and> (\<forall>c \<in> set ''One#Two''. c \<noteq> CHR ''['' \<and> c \<noteq> CHR '']'' \<and> c \<noteq> CHR 0x0A)"
    by simp
  note T = leftmost_heading_marker_bounds_identifier
  from T [where h = ?h and t = "''[[A#B#C''", THEN conjunct1, THEN mp, OF hc]
  have a: "scanBody ''[[A#B#C'' ?h
     = Continue \<lparr> currentPosition = 2, currentChar = Some ''A'', afterHeadingMarker = True,
         headingMarkerPosition = 3, firstClosingBraceHit = False, firstOpeningBraceHit = False \<rparr>"
    by (simp add: charAtIndex_def)
  from T [where n = 8 and t = ?t and cursor = 11 and s = ?s and m = 5, THEN conjunct2, THEN conjunct1, THEN mp, OF hyp]
  have b: "linkContextScanner ?t 11 = Some (HeadingLinkContext ''A'')"
    by (simp add: substring_def)
  from T [where ident = "''Note''" and rest = "''One#Two''" and pre = "''see ''", THEN conjunct2, THEN conjunct2,
      THEN conjunct1, THEN mp, OF hi]
  have c: "linkContextScanner ''see [[Note#One#Two'' 18 = Some (HeadingLinkContext ''Note'')"
    by simp
  from a b c show ?thesis by blast
qed

section \<open>The claims about headings and the list of notes\<close>

text \<open>
  Claim C2: the headings extracted from the four lines \<^verbatim>\<open># A\<close>, \<^verbatim>\<open>## B\<close>, \<^verbatim>\<open>text\<close> and
  \<^verbatim>\<open>### C\<close> followed by two spaces are \<^verbatim>\<open>A\<close>, \<^verbatim>\<open>B\<close>, \<^verbatim>\<open>C\<close>, each of level 1, and in
  general a heading's title is its line without the leading \<^verbatim>\<open>#\<close> characters and the
  surrounding white space.

  The function yields \<^verbatim>\<open>A\<close> and \<^verbatim>\<open>## C\<close> on that text. The call \<^verbatim>\<open>replace('#', '')\<close>
  removes the first \<^verbatim>\<open>#\<close> only, so \<^verbatim>\<open>## B\<close> alone gives \<^verbatim>\<open># B\<close>; and the expression
  object keeps its \<^verbatim>\<open>lastIndex\<close> from a matching line to the next, so the line that
  follows a heading is never matched: \<^verbatim>\<open># A\<close> followed by \<^verbatim>\<open># B\<close> gives \<^verbatim>\<open>A\<close> alone.
  The level of every heading is 1.
\<close>

theorem findHeadingsInDocument_claimed_example:
  "findHeadingsInDocument
       (''# A'' @ [CHR 0x0A] @ ''## B'' @ [CHR 0x0A] @ ''text'' @ [CHR 0x0A] @ ''### C  '')
     = [''A'', ''## C'']
   \<and> addHeadingsToNote (findHeadingsInDocument
       (''# A'' @ [CHR 0x0A] @ ''## B'' @ [CHR 0x0A] @ ''text'' @ [CHR 0x0A] @ ''### C  ''))
     = [\<lparr> title = ''A'', level = 1 \<rparr>, \<lparr> title = ''## C'', level = 1 \<rparr>]
   \<and> findHeadingsInDocument ''## B'' = [''# B'']
   \<and> findHeadingsInDocument (''# A'' @ [CHR 0x0A] @ ''# B'') = [''A'']"
  by code_simp

subsection \<open>Upserts into the list of notes\<close>

lemma findIndex_None: "(findIndex p xs = None) = (\<forall>x \<in> set xs. \<not> p x)"
  by (induction xs) auto

lemma findIndex_Some:
  "findIndex p xs = Some i \<Longrightarrow> i < length xs \<and> p (xs ! i)"
  by (induction xs arbitrary: i) (auto split: if_splits)

lemma Note_headings_update:
  "(n :: Note)\<lparr> headings := hs \<rparr> = \<lparr> filename = filename n, headings = hs \<rparr>"
  by (cases n) simp

lemma addNoteToList_absent:
  assumes "noteFilename ext root (uri d) \<notin> set (map filename notes)"
  shows "addNoteToList ext root notes d
       = notes @ [\<lparr> filename = noteFilename ext root (uri d),
                    headings = addHeadingsToNote (findHeadingsInDocument (getText d)) \<rparr>]"
proof -
  have "findIndex (\<lambda>elem. filename elem = noteFilename ext root (uri d)) notes = None"
    using assms by (force simp: findIndex_None)
  then show ?thesis by (simp add: addNoteToList_def Let_def)
qed

lemma addNoteToList_present:
  assumes "noteFilename ext root (uri d) \<in> set (map filename notes)"
  shows "\<exists>i < length notes. filename (notes ! i) = noteFilename ext root (uri d)
       \<and> addNoteToList ext root notes d
         = notes[i := \<lparr> filename = noteFilename ext root (uri d),
                        headings = addHeadingsToNote (findHeadingsInDocument (getText d)) \<rparr>]"
proof -
  let ?p = "\<lambda>elem. filename elem = noteFilename ext root (uri d)"
  from assms have "findIndex ?p notes \<noteq> None" by (auto simp: findIndex_None)
  then obtain i where i: "findIndex ?p notes = Some i" by auto
  from findIndex_Some [OF i] have "i < length notes" "filename (notes ! i) = noteFilename ext root (uri d)"
    by simp_all
  moreover from this i have "addNoteToList ext root notes d
         = notes[i := \<lparr> filename = noteFilename ext root (uri d),
                        headings = addHeadingsToNote (findHeadingsInDocument (getText d)) \<rparr>]"
    by (simp add: addNoteToList_def Let_def Note_headings_update)
  ultimately show ?thesis by blast
qed

lemma addNoteToList_filenames:
  "map filename (addNoteToList ext root notes d)
   = (if noteFilename ext root (uri d) \<in> set (map filename notes)
      then map filename notes
      else map filename notes @ [noteFilename ext root (uri d)])"
proof (cases "noteFilename ext root (uri d) \<in> set (map filename notes)")
  case True
  from addNoteToList_present [OF True] obtain i where
    i: "i < length notes" "filename (notes ! i) = noteFilename ext root (uri d)"
    and eq: "addNoteToList ext root notes d
         = notes[i := \<lparr> filename = noteFilename ext root (uri d),
                        headings = addHeadingsToNote (findHeadingsInDocument (getText d)) \<rparr>]"
    by blast
  have "map filename (addNoteToList ext root notes d)
        = (map filename notes)[i := noteFilename ext root (uri d)]"
    unfolding eq by (simp add: map_update)
  also have "\<dots> = map filename notes"
    using i by (metis length_map list_update_id nth_map)
  finally show ?thesis using True by simp
next
  case False
  then show ?thesis by (simp add: addNoteToList_absent)
qed

lemma addNoteToList_distinct:
  "distinct (map filename notes) \<Longrightarrow> distinct (map filename (addNoteToList ext root notes d))"
  by (simp add: addNoteToList_filenames)

lemma foldl_addNoteToList_distinct:
  "distinct (map filename ns) \<Longrightarrow>
   distinct (map filename (foldl (addNoteToList ext root) ns docs))"
  by (induction docs arbitrary: ns) (simp_all add: addNoteToList_distinct)

lemma filter_key_distinct:
  "distinct (map f xs) \<Longrightarrow> i < length xs \<Longrightarrow> f (xs ! i) = k \<Longrightarrow>
   filter (\<lambda>x. f x = k) xs = [xs ! i]"
proof (induction xs arbitrary: i)
  case Nil
  then show ?case by simp
next
  case (Cons x xs)
  show ?case
  proof (cases i)
    case 0
    from Cons.prems(1) have "f x \<notin> f ` set xs" by simp
    moreover from 0 Cons.prems(3) have "k = f x" by simp
    ultimately have "\<forall>y \<in> set xs. f y \<noteq> k" by (auto simp: image_iff)
    then have "filter (\<lambda>x. f x = k) xs = []" by (simp add: filter_empty_conv)
    with 0 Cons.prems show ?thesis by simp
  next
    case (Suc j)
    with Cons.prems have "f x \<noteq> k" by (auto simp: image_iff)
    with Suc Cons show ?thesis by simp
  qed
qed

lemma addNoteToList_single:
  assumes "distinct (map filename notes)"
  shows "filter (\<lambda>n. filename n = noteFilename ext root (uri d)) (addNoteToList ext root notes d)
       = [\<lparr> filename = noteFilename ext root (uri d),
             headings = addHeadingsToNote (findHeadingsInDocument (getText d)) \<rparr>]"
proof -
  let ?k = "noteFilename ext root (uri d)"
  let ?n = "\<lparr> filename = ?k, headings = addHeadingsToNote (findHeadingsInDocument (getText d)) \<rparr>"
  let ?r = "addNoteToList ext root notes d"
  have d: "distinct (map filename ?r)" using assms by (rule addNoteToList_distinct)
  have "\<exists>i < length ?r. ?r ! i = ?n"
  proof (cases "?k \<in> set (map filename notes)")
    case True
    from addNoteToList_present [OF True] obtain i where
      "i < length notes" "?r = notes[i := ?n]" by blast
    then show ?thesis by (intro exI [of _ i]) simp
  next
    case False
    then have "?r = notes @ [?n]" by (rule addNoteToList_absent)
    then show ?thesis by (intro exI [of _ "length notes"]) simp
  qed
  then obtain i where i: "i < length ?r" "?r ! i = ?n" by blast
  then have "filename (?r ! i) = ?k" by simp
  from filter_key_distinct [OF d i(1) this] i(2) show ?thesis by simp
qed

text \<open>
  Claim C3: after any sequence of upserts (calls of \<open>addNoteToList\<close> from the empty
  list) no two notes bear the same identifier; after the upsert of a document \<open>d\<close>
  there is exactly one note with the identifier of \<open>d\<close>, and its headings are exactly
  those extracted from \<open>d\<close>; so when two documents \<open>d1\<close> and \<open>d2\<close> of the same
  identifier are upserted, with any upserts before and between them, the one note of
  that identifier holds the headings of \<open>d2\<close>. An identifier not yet present is
  appended as a new note at the end, and the upsert of one that is present leaves the
  sequence of identifiers as it was.
\<close>

theorem note_index_upsert:
  "distinct (map filename (foldl (addNoteToList ext root) [] docs))
   \<and> filter (\<lambda>n. filename n = noteFilename ext root (uri d))
        (foldl (addNoteToList ext root) [] (docs @ [d]))
     = [\<lparr> filename = noteFilename ext root (uri d),
           headings = addHeadingsToNote (findHeadingsInDocument (getText d)) \<rparr>]
   \<and> (noteFilename ext root (uri d1) = noteFilename ext root (uri d2)
      \<longrightarrow> filter (\<lambda>n. filename n = noteFilename ext root (uri d1))
            (foldl (addNoteToList ext root) [] (docs @ [d1] @ between @ [d2]))
          = [\<lparr> filename = noteFilename ext root (uri d1),
                headings = addHeadingsToNote (findHeadingsInDocument (getText d2)) \<rparr>])
   \<and> (noteFilename ext root (uri d)
        \<notin> set (map filename (foldl (addNoteToList ext root) [] docs))
      \<longrightarrow> foldl (addNoteToList ext root) [] (docs @ [d])
          = foldl (addNoteToList ext root) [] docs
            @ [\<lparr> filename = noteFilename ext root (uri d),
                  headings = addHeadingsToNote (findHeadingsInDocument (getText d)) \<rparr>])
   \<and> (noteFilename ext root (uri d)
        \<in> set (map filename (foldl (addNoteToList ext root) [] docs))
      \<longrightarrow> map filename (foldl (addNoteToList ext root) [] (docs @ [d]))
          = map filename (foldl (addNoteToList ext root) [] docs))"
proof -
  have dist: "distinct (map filename (foldl (addNoteToList ext root) [] ds))" for ds
    by (rule foldl_addNoteToList_distinct) simp
  have one: "filter (\<lambda>n. filename n = noteFilename ext root (uri x))
        (foldl (addNoteToList ext root) [] (ds @ [x]))
     = [\<lparr> filename = noteFilename ext root (uri x),
           headings = addHeadingsToNote (findHeadingsInDocument (getText x)) \<rparr>]" for ds x
    using addNoteToList_single [OF dist [of ds]] by simp
  have twice: "filter (\<lambda>n. filename n = noteFilename ext root (uri d1))
            (foldl (addNoteToList ext root) [] (docs @ [d1] @ between @ [d2]))
          = [\<lparr> filename = noteFilename ext root (uri d1),
                headings = addHeadingsToNote (findHeadingsInDocument (getText d2)) \<rparr>]"
    if "noteFilename ext root (uri d1) = noteFilename ext root (uri d2)"
    using one [of d2 "docs @ [d1] @ between"] that by simp
  have absent: "foldl (addNoteToList ext root) [] (docs @ [d])
          = foldl (addNoteToList ext root) [] docs
            @ [\<lparr> filename = noteFilename ext root (uri d),
                  headings = addHeadingsToNote (findHeadingsInDocument (getText d)) \<rparr>]"
    if "noteFilename ext root (uri d)
        \<notin> set (map filename (foldl (addNoteToList ext root) [] docs))"
    using addNoteToList_absent [OF that] by simp
  have present: "map filename (foldl (addNoteToList ext root) [] (docs @ [d]))
          = map filename (foldl (addNoteToList ext root) [] docs)"
    if "noteFilename ext root (uri d)
        \<in> set (map filename (foldl (addNoteToList ext root) [] docs))"
    using that by (simp add: addNoteToList_filenames)
  from dist [of docs] one [of d docs] twice absent present show ?thesis by blast
qed

theorem note_index_upsert_witness:
  "filter (\<lambda>n. filename n = ''a'')
       (foldl (addNoteToList ''.txt'' ''file:///notes'') []
         [\<lparr> uri = ''file:///notes/a.txt'', getText = ''# One'' \<rparr>,
          \<lparr> uri = ''file:///notes/b.txt'', getText = ''# Other'' \<rparr>,
          \<lparr> uri = ''file:///notes/a.txt'', getText = ''# Two'' \<rparr>])
     = [\<lparr> filename = ''a'', headings = [\<lparr> title = ''Two'', level = 1 \<rparr>] \<rparr>]
   \<and> foldl (addNoteToList ''.txt'' ''file:///notes'') []
       [\<lparr> uri = ''file:///notes/a.txt'', getText = ''# One'' \<rparr>]
     = [\<lparr> filename = ''a'', headings = [\<lparr> title = ''One'', level = 1 \<rparr>] \<rparr>]"
proof -
  let ?d1 = "\<lparr> uri = ''file:///notes/a.txt'', getText = ''# One'' \<rparr>"
  let ?b = "\<lparr> uri = ''file:///notes/b.txt'', getText = ''# Other'' \<rparr>"
  let ?d2 = "\<lparr> uri = ''file:///notes/a.txt'', getText = ''# Two'' \<rparr>"
  have n: "noteFilename ''.txt'' ''file:///notes'' ''file:///notes/a.txt'' = ''a''"
    by code_simp
  have h1: "findHeadingsInDocument ''# One'' = [''One'']" by code_simp
  have h2: "findHeadingsInDocument ''# Two'' = [''Two'']" by code_simp
  note t = note_index_upsert [of "''.txt''" "''file:///notes''" "[]" ?d1 ?d1 ?d2 "[?b]"]
  have same: "noteFilename ''.txt'' ''file:///notes'' (uri ?d1)
            = noteFilename ''.txt'' ''file:///notes'' (uri ?d2)" by simp
  have absent: "noteFilename ''.txt'' ''file:///notes'' (uri ?d1)
      \<notin> set (map filename (foldl (addNoteToList ''.txt'' ''file:///notes'') [] []))" by simp
  from t [THEN conjunct2, THEN conjunct2, THEN conjunct1, THEN mp, OF same]
  have a: "filter (\<lambda>n. filename n = ''a'')
       (foldl (addNoteToList ''.txt'' ''file:///notes'') [] [?d1, ?b, ?d2])
     = [\<lparr> filename = ''a'', headings = [\<lparr> title = ''Two'', level = 1 \<rparr>] \<rparr>]"
    by (simp add: n h2 addHeadingsToNote_def)
  from t [THEN conjunct2, THEN conjunct2, THEN conjunct2, THEN conjunct1, THEN mp, OF absent]
  have b: "foldl (addNoteToList ''.txt'' ''file:///notes'') [] [?d1]
     = [\<lparr> filename = ''a'', headings = [\<lparr> title = ''One'', level = 1 \<rparr>] \<rparr>]"
    by (simp add: n h1 addHeadingsToNote_def)
  from a b show ?thesis by (rule conjI)
qed

section \<open>The claims about completion entries\<close>

text \<open>
  Claim C8: every completion entry, from the file list or from the heading list,
  has a string \<open>label\<close>, a \<open>kind\<close> equal to the text kind, and an integer \<open>data\<close>.

  The entries of \<open>headerCompletionResults\<close> are built with a property \<^verbatim>\<open>king\<close> and have
  no \<open>kind\<close>: the request at the end of \<^verbatim>\<open>See [[Note#Head\<close>, with a note \<^verbatim>\<open>Note\<close> of one
  heading \<^verbatim>\<open>Head\<close>, is answered by one entry without \<open>kind\<close>, and so is every entry of
  \<open>headerCompletionResults\<close>, whereas every entry of \<open>fileCompletionResults\<close> has the
  text kind.
\<close>

theorem heading_entries_lack_kind:
  "onCompletion
       [\<lparr> filename = ''Note'', headings = [\<lparr> title = ''Head'', level = 1 \<rparr>] \<rparr>]
       (Some ''See [[Note#Head'') 15
     = Some [[''label'' \<mapsto> JSString ''Head'',
              ''king'' \<mapsto> CompletionItemKind_Text,
              ''data'' \<mapsto> JSNumber 0]]
   \<and> [''label'' \<mapsto> JSString ''Head'', ''king'' \<mapsto> CompletionItemKind_Text,
       ''data'' \<mapsto> JSNumber 0] ''kind'' = None
   \<and> map (\<lambda>entry. entry ''kind'') (headerCompletionResults ns fname)
     = map (\<lambda>entry. None) (headerCompletionResults ns fname)
   \<and> map (\<lambda>entry. entry ''kind'') (fileCompletionResults ns)
     = map (\<lambda>note. Some CompletionItemKind_Text) ns"
proof -
  have s: "linkContextScanner ''See [[Note#Head'' 15 = Some (HeadingLinkContext ''Note'')"
    by code_simp
  have a: "onCompletion
       [\<lparr> filename = ''Note'', headings = [\<lparr> title = ''Head'', level = 1 \<rparr>] \<rparr>]
       (Some ''See [[Note#Head'') 15
     = Some [[''label'' \<mapsto> JSString ''Head'',
              ''king'' \<mapsto> CompletionItemKind_Text,
              ''data'' \<mapsto> JSNumber 0]]"
    by (simp add: onCompletion_def s completionResults_def headerCompletionResults_def
        mapWithIndex_def enumerate_eq_zip)
  have b: "map (\<lambda>entry. entry ''kind'') (headerCompletionResults ns fname)
     = map (\<lambda>entry. None) (headerCompletionResults ns fname)"
    by (auto simp: headerCompletionResults_def mapWithIndex_def split: option.split)
  have c: "map (\<lambda>entry. entry ''kind'') (fileCompletionResults ns)
     = map (\<lambda>note. Some CompletionItemKind_Text) ns"
    unfolding fileCompletionResults_def mapWithIndex_def
    by (rule nth_equalityI) (simp_all add: nth_enumerate_eq)
  from a b c show ?thesis by simp
qed

text \<open>
  Claim C10: the resolve handler returns an entry whose \<open>data\<close> is neither 1 nor 2
  unchanged, and for an entry whose \<open>data\<close> is 1 or 2 it changes at most the
  properties \<open>detail\<close> and \<open>documentation\<close>; \<open>label\<close>, \<open>kind\<close> and \<open>data\<close> are as before in
  either case.
\<close>

theorem onCompletionResolve_frame:
  "(item ''data'' \<noteq> Some (JSNumber 1) \<and> item ''data'' \<noteq> Some (JSNumber 2)
      \<longrightarrow> onCompletionResolve item = item)
   \<and> (item ''data'' = Some (JSNumber 1) \<or> item ''data'' = Some (JSNumber 2)
      \<longrightarrow> (\<forall>field. field \<noteq> ''detail'' \<and> field \<noteq> ''documentation''
             \<longrightarrow> onCompletionResolve item field = item field))
   \<and> onCompletionResolve item ''label'' = item ''label''
   \<and> onCompletionResolve item ''kind'' = item ''kind''
   \<and> onCompletionResolve item ''data'' = item ''data''"
  by (simp add: onCompletionResolve_def)

theorem onCompletionResolve_frame_witness:
  "onCompletionResolve
       [''label'' \<mapsto> JSString ''Note'', ''kind'' \<mapsto> CompletionItemKind_Text, ''data'' \<mapsto> JSNumber 0]
     = [''label'' \<mapsto> JSString ''Note'', ''kind'' \<mapsto> CompletionItemKind_Text, ''data'' \<mapsto> JSNumber 0]
   \<and> onCompletionResolve
       [''label'' \<mapsto> JSString ''Other'', ''kind'' \<mapsto> CompletionItemKind_Text, ''data'' \<mapsto> JSNumber 1]
       ''label''
     = Some (JSString ''Other'')
   \<and> onCompletionResolve
       [''label'' \<mapsto> JSString ''Other'', ''kind'' \<mapsto> CompletionItemKind_Text, ''data'' \<mapsto> JSNumber 1]
       ''detail''
     = Some (JSString ''TypeScript details'')"
proof -
  let ?a = "[''label'' \<mapsto> JSString ''Note'', ''kind'' \<mapsto> CompletionItemKind_Text, ''data'' \<mapsto> JSNumber 0]"
  let ?b = "[''label'' \<mapsto> JSString ''Other'', ''kind'' \<mapsto> CompletionItemKind_Text, ''data'' \<mapsto> JSNumber 1]"
  have da: "?a ''data'' \<noteq> Some (JSNumber 1) \<and> ?a ''data'' \<noteq> Some (JSNumber 2)" by simp
  have db: "?b ''data'' = Some (JSNumber 1) \<or> ?b ''data'' = Some (JSNumber 2)" by simp
  have f: "''label'' \<noteq> ''detail'' \<and> ''label'' \<noteq> ''documentation''" by simp
  note a = onCompletionResolve_frame [of ?a, THEN conjunct1, THEN mp, OF da]
  note b = onCompletionResolve_frame [of ?b, THEN conjunct2, THEN conjunct1, THEN mp, OF db,
      THEN spec, of "''label''", THEN mp, OF f]
  have c: "onCompletionResolve ?b ''detail'' = Some (JSString ''TypeScript details'')"
    by (simp add: onCompletionResolve_def)
  from b have b': "onCompletionResolve ?b ''label'' = Some (JSString ''Other'')" by simp
  from a b' c show ?thesis by blast
qed

section \<open>The claim about the directory walk\<close>


















end
